theory Spec2Isabelle
  imports Complex_Main "HOL-Library.Multiset"
begin

section \<open>The LDA kernel notebook: arrays, errors and external collaborators\<close>

text \<open>
  The development embeds the accumulation loop of the notebook
  \<^verbatim>\<open>Tutorials/04_Density_Functional_Theory/4b_LDA_kernel.ipynb\<close> (the cell that
  starts with \<^verbatim>\<open>D = np.array(wfn.Da())\<close>).

  In this first part Python floats are modelled as \<^typ>\<open>real\<close>: its statements are
  statements over exact arithmetic. The second part keeps the arithmetic as a parameter
  and runs the same cell on a store, with IEEE binary64 as one instance. A one-dimensional array is a list; a two-dimensional array is its shape
  together with its element access, so that an array with zero rows still has a column
  count. The NumPy operations the cell uses are modelled with the behaviour they have on
  every shape: slices truncate silently, an index array entry outside the axis raises
  \<^verbatim>\<open>IndexError\<close>, \<^verbatim>\<open>einsum\<close> and elementwise addition broadcast axes of length one and
  raise \<^verbatim>\<open>ValueError\<close> on any other disagreement.

  The index list of a block holds global basis function numbers, which are counted from
  zero; it is a list of naturals. \<^verbatim>\<open>np.array\<close> turns it into an index array, whose
  element type NumPy infers from the list.
\<close>

datatype error = IndexError | ValueError

type_synonym vec = "real list"

record 'a ndarray =
  nrows :: nat
  ncols :: nat
  entry :: "nat \<Rightarrow> nat \<Rightarrow> 'a"

type_synonym ndarray2 = "real ndarray"

definition and_then :: "error + 'a \<Rightarrow> ('a \<Rightarrow> error + 'b) \<Rightarrow> error + 'b" where
  "and_then r f = (case r of Inl e \<Rightarrow> Inl e | Inr x \<Rightarrow> f x)"

subsection \<open>Index arrays\<close>

text \<open>
  \<^verbatim>\<open>np.array(xs)\<close> for a Python list \<open>xs\<close> of integers: an array of integers when the
  list has an element, and an empty array of the default element type \<^verbatim>\<open>float64\<close> when
  it has none. NumPy accepts an array as an index only when its element type is an
  integer (or boolean) type, whatever its length.
\<close>

datatype dtype = int64 | float64

record index_array =
  dtype_of :: dtype
  items :: "nat list"

definition np_array :: "nat list \<Rightarrow> index_array" where
  "np_array xs = \<lparr>dtype_of = (if xs = [] then float64 else int64), items = xs\<rparr>"

subsection \<open>Broadcasting\<close>

text \<open>
  The common length of one axis over several operands: all lengths other than one must
  agree. An operand whose axis has length one is read at position zero.
\<close>

fun broadcast_dims :: "nat list \<Rightarrow> nat option" where
  "broadcast_dims [] = Some 1"
| "broadcast_dims (d # ds) =
     (case broadcast_dims ds of
        None \<Rightarrow> None
      | Some e \<Rightarrow> if d = e \<or> d = 1 then Some e else if e = 1 then Some d else None)"

definition bidx :: "nat \<Rightarrow> nat \<Rightarrow> nat" where
  "bidx d i = (if d = 1 then 0 else i)"

subsection \<open>The array operations of the cell\<close>

text \<open>\<^verbatim>\<open>np.zeros_like(A)\<close>, \<^verbatim>\<open>A.T\<close>, \<^verbatim>\<open>c * A\<close>, \<^verbatim>\<open>A + B\<close> and \<^verbatim>\<open>A[:r, :c]\<close>.\<close>

definition zeros_like :: "ndarray2 \<Rightarrow> ndarray2" where
  "zeros_like A = \<lparr>nrows = nrows A, ncols = ncols A, entry = (\<lambda>i j. 0)\<rparr>"

definition transpose_nd :: "'a ndarray \<Rightarrow> 'a ndarray" where
  "transpose_nd A = \<lparr>nrows = ncols A, ncols = nrows A, entry = (\<lambda>i j. entry A j i)\<rparr>"

definition scale_nd :: "real \<Rightarrow> ndarray2 \<Rightarrow> ndarray2" where
  "scale_nd c A = \<lparr>nrows = nrows A, ncols = ncols A, entry = (\<lambda>i j. c * entry A i j)\<rparr>"

definition add_nd :: "ndarray2 \<Rightarrow> ndarray2 \<Rightarrow> error + ndarray2" where
  "add_nd A B =
     (case (broadcast_dims [nrows A, nrows B], broadcast_dims [ncols A, ncols B]) of
        (Some r, Some c) \<Rightarrow>
          Inr \<lparr>nrows = r, ncols = c,
               entry = (\<lambda>i j. entry A (bidx (nrows A) i) (bidx (ncols A) j)
                            + entry B (bidx (nrows B) i) (bidx (ncols B) j))\<rparr>
      | _ \<Rightarrow> Inl ValueError)"

definition slice2 :: "'a ndarray \<Rightarrow> nat \<Rightarrow> nat \<Rightarrow> 'a ndarray" where
  "slice2 A r c = A\<lparr>nrows := min r (nrows A), ncols := min c (ncols A)\<rparr>"

text \<open>
  \<^verbatim>\<open>A[(ix[:, None], ix)]\<close>: the copy whose entry \<open>(a, b)\<close> is \<open>A[ix[a], ix[b]]\<close>. An
  index array that does not hold integers is refused. Every entry of \<open>ix\<close> is used as a
  row and as a column number and is checked against both axes.
\<close>

definition getitem_outer :: "'a ndarray \<Rightarrow> index_array \<Rightarrow> error + 'a ndarray" where
  "getitem_outer A ix =
     (if dtype_of ix \<noteq> int64 then Inl IndexError
      else if list_all (\<lambda>i. i < nrows A \<and> i < ncols A) (items ix)
      then Inr \<lparr>nrows = length (items ix), ncols = length (items ix),
                entry = (\<lambda>a b. entry A (items ix ! a) (items ix ! b))\<rparr>
      else Inl IndexError)"

text \<open>
  \<^verbatim>\<open>A[(ix[:, None], ix)] = T\<close> for \<open>T\<close> of the shape of the index: the entries are
  written one after the other in row-major order of \<open>(a, b)\<close>, so that of two positions
  that name the same entry of \<open>A\<close> the later one stays.
\<close>

definition set_entry :: "'a ndarray \<Rightarrow> nat \<Rightarrow> nat \<Rightarrow> 'a \<Rightarrow> 'a ndarray" where
  "set_entry A i j x = A\<lparr>entry := (\<lambda>i' j'. if i' = i \<and> j' = j then x else entry A i' j')\<rparr>"

definition setitem_outer :: "'a ndarray \<Rightarrow> nat list \<Rightarrow> 'a ndarray \<Rightarrow> 'a ndarray" where
  "setitem_outer A ix T =
     foldl (\<lambda>A' (a, b). set_entry A' (ix ! a) (ix ! b) (entry T a b)) A
       (List.product [0..<length ix] [0..<length ix])"

text \<open>
  \<^verbatim>\<open>A[(ix[:, None], ix)] += X\<close> is \<^verbatim>\<open>tmp = A[...]; tmp += X; A[...] = tmp\<close>: the
  in-place addition needs \<open>X\<close> to broadcast to the shape of \<open>tmp\<close>.
\<close>

definition iadd_outer :: "ndarray2 \<Rightarrow> index_array \<Rightarrow> ndarray2 \<Rightarrow> error + ndarray2" where
  "iadd_outer A ix X =
     and_then (getitem_outer A ix) (\<lambda>tmp.
       if (nrows X = nrows tmp \<or> nrows X = 1) \<and> (ncols X = ncols tmp \<or> ncols X = 1)
       then Inr (setitem_outer A (items ix)
                  \<lparr>nrows = nrows tmp, ncols = ncols tmp,
                   entry = (\<lambda>a b. entry tmp a b + entry X (bidx (nrows X) a) (bidx (ncols X) b))\<rparr>)
       else Inl ValueError)"

subsection \<open>The three contractions\<close>

text \<open>\<^verbatim>\<open>np.einsum('pm,mn,pn->p', A, B, C)\<close>\<close>

definition einsum_pm_mn_pn_p :: "ndarray2 \<Rightarrow> ndarray2 \<Rightarrow> ndarray2 \<Rightarrow> error + vec" where
  "einsum_pm_mn_pn_p A B C =
     (case (broadcast_dims [nrows A, nrows C], broadcast_dims [ncols A, nrows B],
            broadcast_dims [ncols B, ncols C]) of
        (Some P, Some M, Some N) \<Rightarrow>
          Inr (map (\<lambda>p. sum_list (map (\<lambda>m. sum_list (map (\<lambda>n.
                   entry A (bidx (nrows A) p) (bidx (ncols A) m)
                 * entry B (bidx (nrows B) m) (bidx (ncols B) n)
                 * entry C (bidx (nrows C) p) (bidx (ncols C) n)) [0..<N])) [0..<M])) [0..<P])
      | _ \<Rightarrow> Inl ValueError)"

text \<open>\<^verbatim>\<open>np.einsum('a,a->', x, y)\<close>\<close>

definition einsum_a_a :: "vec \<Rightarrow> vec \<Rightarrow> error + real" where
  "einsum_a_a x y =
     (case broadcast_dims [length x, length y] of
        Some n \<Rightarrow>
          Inr (sum_list (map (\<lambda>a. x ! bidx (length x) a * y ! bidx (length y) a) [0..<n]))
      | None \<Rightarrow> Inl ValueError)"

text \<open>\<^verbatim>\<open>np.einsum('pb,p,p,pa->ab', A, x, y, C)\<close>: the result has shape (columns of \<open>C\<close>,
  columns of \<open>A\<close>).\<close>

definition einsum_pb_p_p_pa_ab :: "ndarray2 \<Rightarrow> vec \<Rightarrow> vec \<Rightarrow> ndarray2 \<Rightarrow> error + ndarray2" where
  "einsum_pb_p_p_pa_ab A x y C =
     (case broadcast_dims [nrows A, length x, length y, nrows C] of
        Some P \<Rightarrow>
          Inr \<lparr>nrows = ncols C, ncols = ncols A,
               entry = (\<lambda>a b. sum_list (map (\<lambda>p.
                   entry A (bidx (nrows A) p) b
                 * x ! bidx (length x) p
                 * y ! bidx (length y) p
                 * entry C (bidx (nrows C) p) a) [0..<P]))\<rparr>
      | None \<Rightarrow> Inl ValueError)"

subsection \<open>Blocks, the functional and the state of the loop\<close>

text \<open>
  What the grid provider and the basis evaluator hand to the loop for one block:
  \<^verbatim>\<open>block.npoints()\<close>, the list \<^verbatim>\<open>block.functions_local_to_global()\<close>, \<^verbatim>\<open>block.w()\<close> and the
  buffer \<^verbatim>\<open>points_func.basis_values()["PHI"]\<close> after \<^verbatim>\<open>compute_points(block)\<close>.
\<close>

record 'a grid_block =
  npoints :: nat
  lpos :: "nat list"
  w :: "'a list"
  PHI :: "'a ndarray"

type_synonym block = "real grid_block"

text \<open>
  \<^verbatim>\<open>superfunc.compute_functional(inp, -1)\<close> as a function of the density vector; the
  pair is \<^verbatim>\<open>(ret["V"], ret["V_RHO_A"])\<close>.
\<close>

type_synonym functional = "vec \<Rightarrow> vec \<times> vec"

record state =
  D :: ndarray2
  V :: ndarray2
  xc_e :: real

subsection \<open>The loop\<close>

text \<open>\<^verbatim>\<open>phi = np.array(points_func.basis_values()["PHI"])[:npoints, :lpos.shape[0]]\<close>\<close>

definition block_phi :: "block \<Rightarrow> ndarray2" where
  "block_phi b = slice2 (PHI b) (npoints b) (length (lpos b))"

text \<open>\<^verbatim>\<open>rho = 2.0 * np.einsum('pm,mn,pn->p', phi, lD, phi)\<close>\<close>

definition compute_rho :: "ndarray2 \<Rightarrow> ndarray2 \<Rightarrow> error + vec" where
  "compute_rho phi lD = and_then (einsum_pm_mn_pn_p phi lD phi) (\<lambda>r. Inr (map ((*) 2) r))"

text \<open>
  \<^verbatim>\<open>lpos = np.array(block.functions_local_to_global())\<close> and
  \<^verbatim>\<open>lD = D[(lpos[:, None], lpos)]\<close>, followed by the line above.
\<close>

definition density_assembler :: "ndarray2 \<Rightarrow> block \<Rightarrow> error + vec" where
  "density_assembler Da b =
     and_then (getitem_outer Da (np_array (lpos b))) (\<lambda>lD. compute_rho (block_phi b) lD)"

text \<open>
  \<^verbatim>\<open>Vtmp = np.einsum('pb,p,p,pa->ab', phi, v_rho_a, w, phi)\<close> and
  \<^verbatim>\<open>V[(lpos[:, None], lpos)] += 0.5 * (Vtmp + Vtmp.T)\<close>
\<close>

definition matrix_accumulator ::
  "ndarray2 \<Rightarrow> index_array \<Rightarrow> ndarray2 \<Rightarrow> vec \<Rightarrow> vec \<Rightarrow> error + ndarray2" where
  "matrix_accumulator V0 ix phi v_rho_a wts =
     and_then (einsum_pb_p_p_pa_ab phi v_rho_a wts phi) (\<lambda>Vtmp.
     and_then (add_nd Vtmp (transpose_nd Vtmp)) (\<lambda>S.
       iadd_outer V0 ix (scale_nd 0.5 S)))"

text \<open>The body of \<^verbatim>\<open>for b in range(Vpot.nblocks())\<close>, line by line.\<close>

definition loop_body :: "functional \<Rightarrow> state \<Rightarrow> block \<Rightarrow> error + state" where
  "loop_body superfunc st b =
     and_then (density_assembler (D st) b) (\<lambda>rho.
       let ret = superfunc rho;
           vk = take (npoints b) (fst ret)
       in and_then (einsum_a_a (w b) vk) (\<lambda>de.
            let v_rho_a = take (npoints b) (snd ret)
            in and_then (matrix_accumulator (V st) (np_array (lpos b)) (block_phi b) v_rho_a (w b))
                 (\<lambda>V'.
                 Inr (st\<lparr>xc_e := xc_e st + de, V := V'\<rparr>))))"

fun loop :: "functional \<Rightarrow> state \<Rightarrow> block list \<Rightarrow> error + state" where
  "loop superfunc st [] = Inr st"
| "loop superfunc st (b # bs) = and_then (loop_body superfunc st b) (\<lambda>st'. loop superfunc st' bs)"

text \<open>
  The whole cell: \<^verbatim>\<open>D = np.array(wfn.Da())\<close>, \<^verbatim>\<open>V = np.zeros_like(D)\<close>,
  \<^verbatim>\<open>xc_e = 0.0\<close>, then the loop over the blocks of \<^verbatim>\<open>Vpot\<close> in their order.
\<close>

definition xc_kernel :: "ndarray2 \<Rightarrow> functional \<Rightarrow> block list \<Rightarrow> error + state" where
  "xc_kernel Da superfunc Vpot =
     loop superfunc \<lparr>D = Da, V = zeros_like Da, xc_e = 0\<rparr> Vpot"

section \<open>Reference quantities\<close>

text \<open>
  The quantities of the specification, written as plain sums over the inputs of a block:
  the density on the grid, the raw and the symmetrized potential contribution, the energy
  contribution, and the scatter of a local matrix to global positions.
\<close>

definition rho_spec :: "ndarray2 \<Rightarrow> block \<Rightarrow> vec" where
  "rho_spec Da b =
     map (\<lambda>p. 2 * (\<Sum>\<mu><length (lpos b). \<Sum>\<nu><length (lpos b).
                     entry (PHI b) p \<mu> * entry Da (lpos b ! \<mu>) (lpos b ! \<nu>) * entry (PHI b) p \<nu>))
       [0..<npoints b]"

definition Vtmp_spec :: "functional \<Rightarrow> ndarray2 \<Rightarrow> block \<Rightarrow> nat \<Rightarrow> nat \<Rightarrow> real" where
  "Vtmp_spec superfunc Da b a c =
     (\<Sum>p<npoints b. entry (PHI b) p c * snd (superfunc (rho_spec Da b)) ! p * w b ! p
                      * entry (PHI b) p a)"

definition Vsym_spec :: "functional \<Rightarrow> ndarray2 \<Rightarrow> block \<Rightarrow> nat \<Rightarrow> nat \<Rightarrow> real" where
  "Vsym_spec superfunc Da b a c =
     0.5 * (Vtmp_spec superfunc Da b a c + Vtmp_spec superfunc Da b c a)"

definition scatter_spec :: "nat list \<Rightarrow> (nat \<Rightarrow> nat \<Rightarrow> real) \<Rightarrow> nat \<Rightarrow> nat \<Rightarrow> real" where
  "scatter_spec ix S i j =
     (\<Sum>a<length ix. \<Sum>c<length ix. if ix ! a = i \<and> ix ! c = j then S a c else 0)"

definition energy_spec :: "functional \<Rightarrow> ndarray2 \<Rightarrow> block \<Rightarrow> real" where
  "energy_spec superfunc Da b =
     (\<Sum>p<npoints b. w b ! p * fst (superfunc (rho_spec Da b)) ! p)"

text \<open>
  The contract of the collaborators: the functional returns a value for every point it is
  given, and the metadata of a block is consistent with its buffers and with the density
  matrix, with at least one basis function in range.
\<close>

definition functional_ok :: "functional \<Rightarrow> bool" where
  "functional_ok superfunc \<longleftrightarrow>
     (\<forall>rho. length rho \<le> length (fst (superfunc rho)) \<and>
            length rho \<le> length (snd (superfunc rho)))"

definition block_ok :: "ndarray2 \<Rightarrow> block \<Rightarrow> bool" where
  "block_ok Da b \<longleftrightarrow>
     npoints b \<le> nrows (PHI b) \<and> length (lpos b) \<le> ncols (PHI b) \<and>
     length (w b) = npoints b \<and> lpos b \<noteq> [] \<and>
     list_all (\<lambda>i. i < nrows Da \<and> i < ncols Da) (lpos b)"


text \<open>
  The direct contraction over the full basis, without slicing by an index list, without
  symmetrization and without scatter.
\<close>

definition V_reference :: "ndarray2 \<Rightarrow> functional \<Rightarrow> block \<Rightarrow> ndarray2" where
  "V_reference Da superfunc b =
     (let rho = map (\<lambda>p. 2 * (\<Sum>\<mu><nrows Da. \<Sum>\<nu><ncols Da.
                          entry (PHI b) p \<mu> * entry Da \<mu> \<nu> * entry (PHI b) p \<nu>))
                  [0..<npoints b];
          v_rho = snd (superfunc rho)
      in \<lparr>nrows = nrows Da, ncols = ncols Da,
          entry = (\<lambda>a c. \<Sum>p<npoints b. entry (PHI b) p a * v_rho ! p * w b ! p
                                       * entry (PHI b) p c)\<rparr>)"

section \<open>The effect of one block in closed form\<close>

text \<open>
  The last position of a value in an index list, the increment a scatter assignment
  makes to each entry, and the part of the loop body that does not read \<open>V\<close>.
\<close>

definition last_pos :: "nat list \<Rightarrow> nat \<Rightarrow> nat option" where
  "last_pos ix i = find (\<lambda>a. ix ! a = i) (rev [0..<length ix])"

definition scatter_delta :: "nat list \<Rightarrow> ndarray2 \<Rightarrow> nat \<Rightarrow> nat \<Rightarrow> real" where
  "scatter_delta ix X i j =
     (case (last_pos ix i, last_pos ix j) of
        (Some a, Some b) \<Rightarrow> entry X (bidx (nrows X) a) (bidx (ncols X) b)
      | _ \<Rightarrow> 0)"

definition add_entries :: "ndarray2 \<Rightarrow> (nat \<Rightarrow> nat \<Rightarrow> real) \<Rightarrow> ndarray2" where
  "add_entries A d = A\<lparr>entry := (\<lambda>i j. entry A i j + d i j)\<rparr>"

definition block_update :: "functional \<Rightarrow> ndarray2 \<Rightarrow> block \<Rightarrow> error + (real \<times> ndarray2)" where
  "block_update superfunc Da b =
     and_then (density_assembler Da b) (\<lambda>rho.
       let ret = superfunc rho;
           vk = take (npoints b) (fst ret)
       in and_then (einsum_a_a (w b) vk) (\<lambda>de.
            let v_rho_a = take (npoints b) (snd ret)
            in and_then (einsum_pb_p_p_pa_ab (block_phi b) v_rho_a (w b) (block_phi b)) (\<lambda>Vtmp.
               and_then (add_nd Vtmp (transpose_nd Vtmp)) (\<lambda>S.
                 Inr (de, scale_nd 0.5 S)))))"

definition body_ok :: "functional \<Rightarrow> ndarray2 \<Rightarrow> nat \<Rightarrow> nat \<Rightarrow> block \<Rightarrow> bool" where
  "body_ok superfunc Da r c b =
     (case block_update superfunc Da b of
        Inl e \<Rightarrow> False
      | Inr (de, X) \<Rightarrow>
          lpos b \<noteq> [] \<and> list_all (\<lambda>i. i < r \<and> i < c) (lpos b) \<and>
          (nrows X = length (lpos b) \<or> nrows X = 1) \<and>
          (ncols X = length (lpos b) \<or> ncols X = 1))"

definition block_de :: "functional \<Rightarrow> ndarray2 \<Rightarrow> block \<Rightarrow> real" where
  "block_de superfunc Da b =
     (case block_update superfunc Da b of Inl e \<Rightarrow> 0 | Inr (de, X) \<Rightarrow> de)"

definition block_dV :: "functional \<Rightarrow> ndarray2 \<Rightarrow> block \<Rightarrow> nat \<Rightarrow> nat \<Rightarrow> real" where
  "block_dV superfunc Da b i j =
     (case block_update superfunc Da b of
        Inl e \<Rightarrow> 0 | Inr (de, X) \<Rightarrow> scatter_delta (lpos b) X i j)"

section \<open>Concrete inputs\<close>

text \<open>A two-function density matrix, a functional and two blocks that share function 1.\<close>

definition of_rows :: "nat \<Rightarrow> real list list \<Rightarrow> ndarray2" where
  "of_rows c rs = \<lparr>nrows = length rs, ncols = c, entry = (\<lambda>i j. rs ! i ! j)\<rparr>"

definition ex_Da :: ndarray2 where
  "ex_Da = of_rows 2 [[1, 1/2], [1/2, 1]]"

definition ex_functional :: functional where
  "ex_functional rho = (map (\<lambda>x. - x) rho, map (\<lambda>x. - x / 2) rho)"

definition ex_block :: block where
  "ex_block = \<lparr>npoints = 2, lpos = [0, 1], w = [1, 1/2], PHI = of_rows 2 [[1, 0], [1, 1]]\<rparr>"

definition ex_block2 :: block where
  "ex_block2 = \<lparr>npoints = 1, lpos = [1], w = [2], PHI = of_rows 2 [[3, 7], [5, 5]]\<rparr>"

definition ex_state :: state where
  "ex_state = \<lparr>D = ex_Da, V = zeros_like ex_Da, xc_e = 0\<rparr>"

text \<open>
  Blocks whose metadata is degenerate or inconsistent: no basis function in range; a
  weight vector, a buffer of points or a buffer of functions that is shorter than the
  metadata says; an index outside the density matrix; too few columns; too many weights.
\<close>

definition ex_empty_block :: block where
  "ex_empty_block = \<lparr>npoints = 1, lpos = [], w = [1], PHI = of_rows 2 [[1, 1]]\<rparr>"







section \<open>Basic facts\<close>


lemma sum_list_upt: "sum_list (map f [0..<n]) = (\<Sum>i<n. f i)"
  by (simp add: interv_sum_list_conv_sum_set_nat atLeast0LessThan)

lemma broadcast_dims2:
  "broadcast_dims [a, b] = (if a = b \<or> a = 1 then Some b else if b = 1 then Some a else None)"
  by simp

lemma broadcast_dims_same2 [simp]: "broadcast_dims [a, a] = Some a"
  by simp

lemma product_snoc: "List.product (xs @ [x]) ys = List.product xs ys @ map (Pair x) ys"
  by (induction xs) simp_all

lemma rev_product: "rev (List.product xs ys) = List.product (rev xs) (rev ys)"
  by (induction xs) (simp_all add: product_snoc rev_map)

lemma find_append: "find P (xs @ ys) = (case find P xs of None \<Rightarrow> find P ys | Some x \<Rightarrow> Some x)"
  by (induction xs) simp_all

lemma find_map_Pair:
  "find (\<lambda>(a, b). Pa a \<and> Pb b) (map (Pair a) bs) =
     (if Pa a then map_option (Pair a) (find Pb bs) else None)"
  by (induction bs) simp_all

lemma find_product:
  "find (\<lambda>(a, b). Pa a \<and> Pb b) (List.product as bs) =
     (case (find Pa as, find Pb bs) of (Some a, Some b) \<Rightarrow> Some (a, b) | _ \<Rightarrow> None)"
  by (induction as) (auto simp: find_append find_map_Pair split: option.splits)

lemma entry_set_entry [simp]:
  "entry (set_entry A i0 j0 x) i j = (if i = i0 \<and> j = j0 then x else entry A i j)"
  "nrows (set_entry A i0 j0 x) = nrows A" "ncols (set_entry A i0 j0 x) = ncols A"
  by (simp_all add: set_entry_def)

lemma foldl_set_entry:
  "entry (foldl (\<lambda>A' (a, b). set_entry A' (f a) (g b) (t a b)) A ps) i j =
     (case find (\<lambda>(a, b). f a = i \<and> g b = j) (rev ps) of
        None \<Rightarrow> entry A i j | Some (a, b) \<Rightarrow> t a b)"
proof (induction ps rule: rev_induct)
  case Nil
  then show ?case by simp
next
  case (snoc x xs)
  obtain a b where x: "x = (a, b)" by (cases x)
  show ?case
  proof (cases "f a = i \<and> g b = j")
    case True
    then show ?thesis by (simp add: x)
  next
    case False
    then show ?thesis using snoc by (auto simp add: x)
  qed
qed

lemma foldl_set_entry_shape:
  "nrows (foldl (\<lambda>A' (a, b). set_entry A' (f a) (g b) (t a b)) A ps) = nrows A \<and>
   ncols (foldl (\<lambda>A' (a, b). set_entry A' (f a) (g b) (t a b)) A ps) = ncols A"
  by (induction ps rule: rev_induct) (auto)

lemma last_pos_None_iff: "last_pos ix i = None \<longleftrightarrow> i \<notin> set ix"
  by (auto simp: last_pos_def find_None_iff in_set_conv_nth)

lemma last_pos_SomeD: "last_pos ix i = Some a \<Longrightarrow> a < length ix \<and> ix ! a = i"
  unfolding last_pos_def by (auto simp: find_Some_iff rev_nth)

lemma last_pos_distinct: "distinct ix \<Longrightarrow> a < length ix \<Longrightarrow> last_pos ix (ix ! a) = Some a"
proof -
  assume d: "distinct ix" and a: "a < length ix"
  have "last_pos ix (ix ! a) \<noteq> None" using a by (simp add: last_pos_None_iff)
  then obtain c where c: "last_pos ix (ix ! a) = Some c" by auto
  from last_pos_SomeD[OF c] have "c < length ix" "ix ! c = ix ! a" by auto
  with d a have "c = a" by (simp add: nth_eq_iff_index_eq)
  with c show ?thesis by simp
qed

lemma entry_setitem_outer:
  "entry (setitem_outer A ix T) i j =
     (case (last_pos ix i, last_pos ix j) of
        (Some a, Some b) \<Rightarrow> entry T a b
      | _ \<Rightarrow> entry A i j)"
  unfolding setitem_outer_def foldl_set_entry rev_product find_product last_pos_def
  by (auto split: option.splits)

lemma shape_setitem_outer [simp]:
  "nrows (setitem_outer A ix T) = nrows A" "ncols (setitem_outer A ix T) = ncols A"
  unfolding setitem_outer_def using foldl_set_entry_shape by blast+

lemma iadd_outer_eq:
  "iadd_outer A (np_array ix) X =
     (if ix = [] \<or> \<not> list_all (\<lambda>i. i < nrows A \<and> i < ncols A) ix then Inl IndexError
      else if (nrows X = length ix \<or> nrows X = 1) \<and> (ncols X = length ix \<or> ncols X = 1)
      then Inr (add_entries A (scatter_delta ix X))
      else Inl ValueError)"
proof -
  have "setitem_outer A ix
          \<lparr>nrows = length ix, ncols = length ix,
           entry = (\<lambda>a b. entry A (ix ! a) (ix ! b) + entry X (bidx (nrows X) a) (bidx (ncols X) b))\<rparr>
        = add_entries A (scatter_delta ix X)" (is "?L = ?R")
  proof (rule ndarray.equality)
    show "entry ?L = entry ?R"
      by (intro ext) (auto simp: entry_setitem_outer add_entries_def scatter_delta_def
            split: option.splits dest: last_pos_SomeD)
  qed (simp_all add: add_entries_def)
  then show ?thesis
    by (simp add: iadd_outer_def getitem_outer_def and_then_def np_array_def)
qed

lemma loop_body_eq:
  "loop_body superfunc st b =
     and_then (block_update superfunc (D st) b) (\<lambda>(de, X).
       and_then (iadd_outer (V st) (np_array (lpos b)) X) (\<lambda>V'.
         Inr (st\<lparr>xc_e := xc_e st + de, V := V'\<rparr>)))"
  by (simp add: loop_body_def block_update_def matrix_accumulator_def and_then_def Let_def
        split: sum.splits)

lemma loop_body_ok:
  assumes "body_ok superfunc (D st) (nrows (V st)) (ncols (V st)) b"
  shows "loop_body superfunc st b =
           Inr (st\<lparr>xc_e := xc_e st + block_de superfunc (D st) b,
                   V := add_entries (V st) (block_dV superfunc (D st) b)\<rparr>)"
proof -
  from assms obtain de X where u: "block_update superfunc (D st) b = Inr (de, X)"
    by (auto simp: body_ok_def split: sum.splits)
  have dv: "block_dV superfunc (D st) b = scatter_delta (lpos b) X"
    by (intro ext) (simp add: block_dV_def u)
  from assms u show ?thesis
    by (simp add: loop_body_eq body_ok_def iadd_outer_eq and_then_def block_de_def dv)
qed

lemma loop_body_not_ok:
  assumes "\<not> body_ok superfunc (D st) (nrows (V st)) (ncols (V st)) b"
  shows "\<exists>e. loop_body superfunc st b = Inl e"
  using assms
  by (auto simp: loop_body_eq body_ok_def iadd_outer_eq and_then_def split: sum.splits)

lemma add_entries_simps [simp]:
  "nrows (add_entries A d) = nrows A" "ncols (add_entries A d) = ncols A"
  "entry (add_entries A d) i j = entry A i j + d i j"
  by (simp_all add: add_entries_def)

lemma add_entries_add_entries:
  "add_entries (add_entries A d) d' = add_entries A (\<lambda>i j. d i j + d' i j)"
  by (simp add: add_entries_def add.assoc)

lemma add_entries_zero [simp]: "add_entries A (\<lambda>i j. 0) = A"
  by (simp add: add_entries_def)

lemma loop_ok:
  "(\<forall>b\<in>set bs. body_ok superfunc (D st) (nrows (V st)) (ncols (V st)) b) \<Longrightarrow>
   loop superfunc st bs =
     Inr (st\<lparr>xc_e := xc_e st + sum_list (map (block_de superfunc (D st)) bs),
             V := add_entries (V st)
                    (\<lambda>i j. sum_list (map (\<lambda>b. block_dV superfunc (D st) b i j) bs))\<rparr>)"
proof (induction bs arbitrary: st)
  case Nil
  then show ?case by simp
next
  case (Cons b bs)
  let ?st' = "st\<lparr>xc_e := xc_e st + block_de superfunc (D st) b,
                  V := add_entries (V st) (block_dV superfunc (D st) b)\<rparr>"
  from Cons.prems have b: "loop_body superfunc st b = Inr ?st'"
    by (simp add: loop_body_ok)
  from Cons.prems
  have "\<forall>b\<in>set bs. body_ok superfunc (D ?st') (nrows (V ?st')) (ncols (V ?st')) b"
    by simp
  from Cons.IH[OF this] show ?case
    by (simp add: b and_then_def add_entries_add_entries add.assoc)
qed

lemma loop_not_ok:
  "(\<exists>b\<in>set bs. \<not> body_ok superfunc (D st) (nrows (V st)) (ncols (V st)) b) \<Longrightarrow>
   \<exists>e. loop superfunc st bs = Inl e"
proof (induction bs arbitrary: st)
  case Nil
  then show ?case by simp
next
  case (Cons b bs)
  show ?case
  proof (cases "body_ok superfunc (D st) (nrows (V st)) (ncols (V st)) b")
    case False
    from loop_body_not_ok[OF this] show ?thesis by (auto simp: and_then_def)
  next
    case True
    let ?st' = "st\<lparr>xc_e := xc_e st + block_de superfunc (D st) b,
                    V := add_entries (V st) (block_dV superfunc (D st) b)\<rparr>"
    from True have b: "loop_body superfunc st b = Inr ?st'"
      by (simp add: loop_body_ok)
    from True Cons.prems
    have "\<exists>b\<in>set bs. \<not> body_ok superfunc (D ?st') (nrows (V ?st')) (ncols (V ?st')) b"
      by simp
    from Cons.IH[OF this] show ?thesis by (simp add: b and_then_def)
  qed
qed

lemma loop_Inr_iff:
  "(\<exists>st'. loop superfunc st bs = Inr st') \<longleftrightarrow>
   (\<forall>b\<in>set bs. body_ok superfunc (D st) (nrows (V st)) (ncols (V st)) b)"
proof (cases "\<forall>b\<in>set bs. body_ok superfunc (D st) (nrows (V st)) (ncols (V st)) b")
  case True
  with loop_ok[OF True] show ?thesis by simp
next
  case False
  then have "\<exists>e. loop superfunc st bs = Inl e" by (intro loop_not_ok) simp
  with False show ?thesis by auto
qed

lemma upt_2: "[0..<2] = [0, 1]"
  by (simp add: upt_rec)

lemma ex_density: "density_assembler ex_Da ex_block = Inr [2, 6]"
  by (simp add: density_assembler_def compute_rho_def getitem_outer_def np_array_def ex_Da_def ex_block_def
      of_rows_def and_then_def block_phi_def slice2_def einsum_pm_mn_pn_p_def bidx_def upt_2)

lemma ex_density2: "density_assembler ex_Da ex_block2 = Inr [18]"
  by (simp add: density_assembler_def compute_rho_def getitem_outer_def np_array_def ex_Da_def ex_block2_def
      of_rows_def and_then_def block_phi_def slice2_def einsum_pm_mn_pn_p_def bidx_def upt_2)

lemma ex_update:
  "\<exists>X. block_update ex_functional ex_Da ex_block = Inr (- 5, X) \<and> nrows X = 2 \<and> ncols X = 2"
  unfolding block_update_def ex_density
  by (simp add: ex_functional_def and_then_def ex_block_def 
     einsum_a_a_def bidx_def upt_2 einsum_pb_p_p_pa_ab_def block_phi_def slice2_def of_rows_def 
    add_nd_def transpose_nd_def scale_nd_def)

lemma ex_body_ok: "body_ok ex_functional ex_Da 2 2 ex_block"
  using ex_update by (auto simp add: body_ok_def ex_block_def)

lemma ex_update2:
  "\<exists>X. block_update ex_functional ex_Da ex_block2 = Inr (- 36, X) \<and> nrows X = 1 \<and> ncols X = 1"
  unfolding block_update_def ex_density2
  by (simp add: ex_functional_def and_then_def ex_block2_def 
     einsum_a_a_def bidx_def upt_2 einsum_pb_p_p_pa_ab_def block_phi_def slice2_def of_rows_def 
    add_nd_def transpose_nd_def scale_nd_def)

lemma ex_body_ok2: "body_ok ex_functional ex_Da 2 2 ex_block2"
  using ex_update2 by (auto simp add: body_ok_def ex_block2_def)

lemma ex_Da_shape [simp]: "nrows ex_Da = 2" "ncols ex_Da = 2"
  by (simp_all add: ex_Da_def of_rows_def)

lemma zeros_like_simps [simp]:
  "nrows (zeros_like A) = nrows A" "ncols (zeros_like A) = ncols A" "entry (zeros_like A) i j = 0"
  by (simp_all add: zeros_like_def)

lemma ex_block_de: "block_de ex_functional ex_Da ex_block = - 5"
  using ex_update by (auto simp: block_de_def)

lemma ex_block_de2: "block_de ex_functional ex_Da ex_block2 = - 36"
  using ex_update2 by (auto simp: block_de_def)

lemma ex_run:
  "\<exists>st. xc_kernel ex_Da ex_functional [ex_block, ex_block2] = Inr st \<and> xc_e st = - 41"
  unfolding xc_kernel_def
  by (subst loop_ok) (simp_all add: ex_body_ok ex_body_ok2 ex_block_de ex_block_de2)

section \<open>The density matrix is only read\<close>




section \<open>The order of the blocks\<close>

lemma sum_list_mset_cong:
  fixes f :: "'a \<Rightarrow> real"
  shows "mset xs = mset ys \<Longrightarrow> sum_list (map f xs) = sum_list (map f ys)"
proof -
  assume "mset xs = mset ys"
  then have "sum_mset (image_mset f (mset xs)) = sum_mset (image_mset f (mset ys))" by simp
  then show ?thesis by (simp only: mset_map[symmetric] sum_mset_sum_list)
qed

text \<open>
  Claim C6. The result of the cell does not depend on the order of the blocks: when the
  blocks are processed in one order and the cell returns a state, it returns the same
  state (the same energy and the same matrix \<open>V\<close>) for every rearrangement of
  the blocks.
\<close>

theorem block_order_invariance:
  assumes "mset Vpot' = mset Vpot" and "xc_kernel Da superfunc Vpot = Inr st"
  shows "xc_kernel Da superfunc Vpot' = Inr st"
proof -
  let ?st0 = "\<lparr>D = Da, V = zeros_like Da, xc_e = 0\<rparr>"
  let ?ok = "body_ok superfunc (D ?st0) (nrows (V ?st0)) (ncols (V ?st0))"
  from assms(2) have "\<exists>st'. loop superfunc ?st0 Vpot = Inr st'"
    by (simp add: xc_kernel_def)
  then have ok: "\<forall>b\<in>set Vpot. ?ok b" by (simp only: loop_Inr_iff)
  from assms(1) have "set Vpot' = set Vpot" by (rule mset_eq_setD)
  with ok have ok': "\<forall>b\<in>set Vpot'. ?ok b" by simp
  have e: "sum_list (map (block_de superfunc Da) Vpot') = sum_list (map (block_de superfunc Da) Vpot)"
    by (rule sum_list_mset_cong[OF assms(1)])
  have v: "(\<lambda>i j. sum_list (map (\<lambda>b. block_dV superfunc Da b i j) Vpot')) =
           (\<lambda>i j. sum_list (map (\<lambda>b. block_dV superfunc Da b i j) Vpot))"
    by (intro ext sum_list_mset_cong[OF assms(1)])
  from loop_ok[OF ok] assms(2) have "st = ?st0\<lparr>xc_e := xc_e ?st0 + sum_list (map (block_de superfunc (D ?st0)) Vpot),
             V := add_entries (V ?st0)
                    (\<lambda>i j. sum_list (map (\<lambda>b. block_dV superfunc (D ?st0) b i j) Vpot))\<rparr>"
    by (simp add: xc_kernel_def)
  with loop_ok[OF ok'] e v show ?thesis
    by (simp add: xc_kernel_def)
qed

theorem block_order_invariance_witness:
  "mset [ex_block2, ex_block] = mset [ex_block, ex_block2] \<and>
   map_sum id xc_e (xc_kernel ex_Da ex_functional [ex_block, ex_block2]) = Inr (- 41) \<and>
   xc_kernel ex_Da ex_functional [ex_block2, ex_block]
     = xc_kernel ex_Da ex_functional [ex_block, ex_block2]"
proof -
  have m: "mset [ex_block2, ex_block] = mset [ex_block, ex_block2]" by simp
  from ex_run obtain st where st: "xc_kernel ex_Da ex_functional [ex_block, ex_block2] = Inr st"
    and e: "xc_e st = - 41" by blast
  from block_order_invariance[OF m st] st e m show ?thesis by simp
qed

section \<open>Symmetry of the accumulated matrix\<close>





lemma xc_kernel_Inr:
  assumes "xc_kernel Da superfunc Vpot = Inr st"
  shows "st = \<lparr>D = Da,
              V = add_entries (zeros_like Da)
                    (\<lambda>i j. sum_list (map (\<lambda>b. block_dV superfunc Da b i j) Vpot)),
              xc_e = sum_list (map (block_de superfunc Da) Vpot)\<rparr>"
proof -
  let ?st0 = "\<lparr>D = Da, V = zeros_like Da, xc_e = 0\<rparr>"
  from assms have "\<exists>st'. loop superfunc ?st0 Vpot = Inr st'"
    by (simp add: xc_kernel_def)
  then have "\<forall>b\<in>set Vpot. body_ok superfunc (D ?st0) (nrows (V ?st0)) (ncols (V ?st0)) b"
    by (simp only: loop_Inr_iff)
  from loop_ok[OF this] assms show ?thesis by (simp add: xc_kernel_def)
qed





section \<open>The density on the grid\<close>

lemma bidx_less [simp]: "i < d \<Longrightarrow> bidx d i = i"
  by (auto simp: bidx_def)

lemma einsum_pm_mn_pn_p_agree:
  assumes "nrows C = nrows A" "nrows B = ncols A" "ncols B = ncols C"
  shows "einsum_pm_mn_pn_p A B C =
           Inr (map (\<lambda>p. \<Sum>m<ncols A. \<Sum>n<ncols C. entry A p m * entry B m n * entry C p n)
                  [0..<nrows A])"
  using assms by (simp add: einsum_pm_mn_pn_p_def sum_list_upt)

lemma compute_rho_agree:
  assumes "nrows lD = ncols phi" "ncols lD = ncols phi"
  shows "compute_rho phi lD =
           Inr (map (\<lambda>p. 2 * (\<Sum>\<mu><ncols phi. \<Sum>\<nu><ncols phi.
                                 entry phi p \<mu> * entry lD \<mu> \<nu> * entry phi p \<nu>))
                  [0..<nrows phi])"
  using assms by (simp add: compute_rho_def einsum_pm_mn_pn_p_agree and_then_def)

lemma block_phi_simps:
  "nrows (block_phi b) = min (npoints b) (nrows (PHI b))"
  "ncols (block_phi b) = min (length (lpos b)) (ncols (PHI b))"
  "entry (block_phi b) = entry (PHI b)"
  by (simp_all add: block_phi_def slice2_def)

lemma density_assembler_rho_spec:
  assumes "npoints b \<le> nrows (PHI b)" and "length (lpos b) \<le> ncols (PHI b)"
    and "list_all (\<lambda>i. i < nrows Da \<and> i < ncols Da) (lpos b)" and "lpos b \<noteq> []"
  shows "density_assembler Da b = Inr (rho_spec Da b)"
proof -
  let ?lD = "\<lparr>nrows = length (lpos b), ncols = length (lpos b),
              entry = (\<lambda>a c. entry Da (lpos b ! a) (lpos b ! c))\<rparr>"
  from assms(3,4) have g: "getitem_outer Da (np_array (lpos b)) = Inr ?lD"
    by (simp add: getitem_outer_def np_array_def)
  from assms(1,2) have s: "nrows (block_phi b) = npoints b" "ncols (block_phi b) = length (lpos b)"
    by (simp_all add: block_phi_simps)
  have "compute_rho (block_phi b) ?lD =
          Inr (map (\<lambda>p. 2 * (\<Sum>\<mu><ncols (block_phi b). \<Sum>\<nu><ncols (block_phi b).
                 entry (block_phi b) p \<mu> * entry ?lD \<mu> \<nu> * entry (block_phi b) p \<nu>))
                [0..<nrows (block_phi b)])"
    by (rule compute_rho_agree) (simp_all add: s)
  then show ?thesis
    by (simp add: density_assembler_def g and_then_def s block_phi_simps(3) rho_spec_def)
qed

text \<open>
  Claim C1. For a block whose buffer \<open>PHI\<close> has at least \<open>npoints\<close> rows and at least
  as many columns as the index list has entries, and whose index list is not empty and
  stays inside the density matrix, the density assembler returns the vector of length \<open>npoints\<close> with
  \<open>rho[p] = 2 * (\<Sum>\<mu> \<nu>. Phi[p,\<mu>] * lD[\<mu>,\<nu>] * Phi[p,\<nu>])\<close>, where \<open>Phi\<close> is the
  \<open>npoints \<times> L\<close> corner of the buffer and \<open>lD[\<mu>,\<nu>] = D[lpos[\<mu>], lpos[\<nu>]]\<close>.
\<close>

theorem density_assembler_correct:
  assumes "npoints b \<le> nrows (PHI b)" and "length (lpos b) \<le> ncols (PHI b)"
    and "list_all (\<lambda>i. i < nrows Da \<and> i < ncols Da) (lpos b)" and "lpos b \<noteq> []"
  shows "density_assembler Da b =
           Inr (map (\<lambda>p. 2 * (\<Sum>\<mu><length (lpos b). \<Sum>\<nu><length (lpos b).
                     entry (PHI b) p \<mu> * entry Da (lpos b ! \<mu>) (lpos b ! \<nu>) * entry (PHI b) p \<nu>))
                  [0..<npoints b])"
  using density_assembler_rho_spec[OF assms] by (simp add: rho_spec_def)

theorem density_assembler_correct_witness:
  "npoints ex_block \<le> nrows (PHI ex_block) \<and> length (lpos ex_block) \<le> ncols (PHI ex_block) \<and>
   list_all (\<lambda>i. i < nrows ex_Da \<and> i < ncols ex_Da) (lpos ex_block) \<and> lpos ex_block \<noteq> [] \<and>
   density_assembler ex_Da ex_block = Inr [2, 6]"
proof -
  have h: "npoints ex_block \<le> nrows (PHI ex_block)" "length (lpos ex_block) \<le> ncols (PHI ex_block)"
    "list_all (\<lambda>i. i < nrows ex_Da \<and> i < ncols ex_Da) (lpos ex_block)" "lpos ex_block \<noteq> []"
    by (simp_all add: ex_block_def of_rows_def)
  have "density_assembler ex_Da ex_block = Inr [2, 6]"
    unfolding density_assembler_correct[OF h]
    by (simp add: ex_block_def ex_Da_def of_rows_def upt_2 lessThan_Suc numeral_2_eq_2)
  with h show ?thesis by simp
qed

section \<open>Positive semidefinite density matrices\<close>











section \<open>A well-formed block in closed form\<close>

lemma broadcast_dims_same4 [simp]: "broadcast_dims [a, a, a, a] = Some a"
  by simp

lemma einsum_a_a_agree:
  "length y = length x \<Longrightarrow> einsum_a_a x y = Inr (\<Sum>a<length x. x ! a * y ! a)"
  by (simp add: einsum_a_a_def sum_list_upt)

lemma einsum_pb_p_p_pa_ab_agree:
  assumes "length x = nrows A" "length y = nrows A" "nrows C = nrows A"
  shows "einsum_pb_p_p_pa_ab A x y C =
           Inr \<lparr>nrows = ncols C, ncols = ncols A,
                entry = (\<lambda>a c. \<Sum>p<nrows A. entry A p c * x ! p * y ! p * entry C p a)\<rparr>"
  using assms by (simp add: einsum_pb_p_p_pa_ab_def sum_list_upt)

lemma block_update_ok:
  assumes f: "functional_ok superfunc" and b: "block_ok Da b"
  shows "\<exists>X. block_update superfunc Da b = Inr (energy_spec superfunc Da b, X) \<and>
             nrows X = length (lpos b) \<and> ncols X = length (lpos b) \<and>
             (\<forall>a<length (lpos b). \<forall>c<length (lpos b).
                entry X a c = Vsym_spec superfunc Da b a c)"
proof -
  let ?rho = "rho_spec Da b" and ?L = "length (lpos b)" and ?P = "npoints b"
  let ?vk = "take ?P (fst (superfunc ?rho))"
  let ?v = "take ?P (snd (superfunc ?rho))"
  from b have rho: "density_assembler Da b = Inr ?rho"
    by (intro density_assembler_rho_spec) (simp_all add: block_ok_def)
  have lr: "length ?rho = ?P" by (simp add: rho_spec_def)
  from f have "?P \<le> length (fst (superfunc ?rho))" "?P \<le> length (snd (superfunc ?rho))"
    unfolding functional_ok_def lr[symmetric] by blast+
  then have lv: "length ?vk = ?P" "length ?v = ?P" by simp_all
  from b have lw: "length (w b) = ?P" by (simp add: block_ok_def)
  from b have s: "nrows (block_phi b) = ?P" "ncols (block_phi b) = ?L"
    by (simp_all add: block_phi_simps block_ok_def)
  have e: "einsum_a_a (w b) ?vk = Inr (energy_spec superfunc Da b)"
    using lv lw by (simp add: einsum_a_a_agree energy_spec_def del: length_take)
  let ?Vt = "\<lparr>nrows = ?L, ncols = ?L,
              entry = (\<lambda>a c. \<Sum>p<?P. entry (PHI b) p c * ?v ! p * w b ! p * entry (PHI b) p a)\<rparr>"
  have vt: "einsum_pb_p_p_pa_ab (block_phi b) ?v (w b) (block_phi b) = Inr ?Vt"
    using lv lw s by (simp add: einsum_pb_p_p_pa_ab_agree block_phi_simps(3) del: length_take)
  let ?S = "\<lparr>nrows = ?L, ncols = ?L,
             entry = (\<lambda>i j. entry ?Vt (bidx ?L i) (bidx ?L j) + entry ?Vt (bidx ?L j) (bidx ?L i))\<rparr>"
  have st: "add_nd ?Vt (transpose_nd ?Vt) = Inr ?S"
    by (simp add: add_nd_def transpose_nd_def)
  have u: "block_update superfunc Da b = Inr (energy_spec superfunc Da b, scale_nd 0.5 ?S)"
    unfolding block_update_def rho Let_def
    by (simp only: and_then_def sum.case e vt st)
  have "entry (scale_nd 0.5 ?S) a c = Vsym_spec superfunc Da b a c" if "a < ?L" "c < ?L" for a c
    using that by (simp add: scale_nd_def Vsym_spec_def Vtmp_spec_def)
  then show ?thesis
    unfolding u by (simp add: scale_nd_def)
qed

lemma scatter_spec_cong:
  "(\<And>a c. a < length ix \<Longrightarrow> c < length ix \<Longrightarrow> S a c = S' a c) \<Longrightarrow>
   scatter_spec ix S i j = scatter_spec ix S' i j"
  unfolding scatter_spec_def by (intro sum.cong refl) simp

lemma last_pos_distinct_iff:
  assumes "distinct ix" "a < length ix"
  shows "ix ! a = i \<longleftrightarrow> last_pos ix i = Some a"
  using assms last_pos_distinct[OF assms] last_pos_SomeD[of ix i a] by auto

lemma scatter_delta_distinct:
  assumes d: "distinct ix" and s: "nrows X = length ix" "ncols X = length ix"
  shows "scatter_delta ix X i j = scatter_spec ix (entry X) i j"
proof -
  let ?L = "length ix"
  have eq: "scatter_spec ix (entry X) i j =
        (\<Sum>a<?L. \<Sum>c<?L. if last_pos ix i = Some a \<and> last_pos ix j = Some c
                            then entry X a c else 0)"
    unfolding scatter_spec_def
    by (intro sum.cong refl) (simp add: last_pos_distinct_iff[OF d])
  show ?thesis
  proof (cases "last_pos ix i")
    case None
    then show ?thesis by (simp add: eq scatter_delta_def)
  next
    case (Some a)
    note a = this
    then have al: "a < ?L" by (auto dest: last_pos_SomeD)
    show ?thesis
    proof (cases "last_pos ix j")
      case None
      then show ?thesis by (simp add: eq scatter_delta_def a)
    next
      case (Some c)
      then have cl: "c < ?L" by (auto dest: last_pos_SomeD)
      have "(\<Sum>a'<?L. \<Sum>c'<?L. if a = a' \<and> c = c' then entry X a' c' else 0)
            = (\<Sum>a'<?L. if a = a' then (\<Sum>c'<?L. if c = c' then entry X a' c' else 0) else 0)"
        by (intro sum.cong refl) simp
      also have "\<dots> = entry X a c" using al cl by (simp add: sum.delta')
      finally show ?thesis
        using al cl by (simp add: eq scatter_delta_def a Some s)
    qed
  qed
qed

lemma block_ok_body:
  assumes f: "functional_ok superfunc" and b: "block_ok Da b"
  shows "body_ok superfunc Da (nrows Da) (ncols Da) b"
    and "block_de superfunc Da b = energy_spec superfunc Da b"
    and "distinct (lpos b) \<Longrightarrow>
         block_dV superfunc Da b i j = scatter_spec (lpos b) (Vsym_spec superfunc Da b) i j"
proof -
  from block_update_ok[OF f b] obtain X where
    u: "block_update superfunc Da b = Inr (energy_spec superfunc Da b, X)"
    and s: "nrows X = length (lpos b)" "ncols X = length (lpos b)"
    and x: "\<And>a c. a < length (lpos b) \<Longrightarrow> c < length (lpos b) \<Longrightarrow>
                entry X a c = Vsym_spec superfunc Da b a c"
    by blast
  from b show "body_ok superfunc Da (nrows Da) (ncols Da) b"
    by (simp add: body_ok_def u s block_ok_def)
  show "block_de superfunc Da b = energy_spec superfunc Da b"
    by (simp add: block_de_def u)
  assume d: "distinct (lpos b)"
  show "block_dV superfunc Da b i j = scatter_spec (lpos b) (Vsym_spec superfunc Da b) i j"
    using scatter_spec_cong[of "lpos b" "entry X" "Vsym_spec superfunc Da b" i j] x
    by (simp add: block_dV_def u scatter_delta_distinct[OF d s])
qed

section \<open>The energy\<close>

text \<open>
  Claim C4. With a functional that returns a value for every point and blocks whose
  metadata is consistent, each run of the loop adds to \<open>xc_e\<close> exactly the sum over its
  blocks and over the points of each block of weight times energy density, and the cell,
  which starts from \<open>0.0\<close>, returns that sum.
\<close>

theorem xc_energy_running_sum:
  assumes "functional_ok superfunc" and "\<forall>b\<in>set bs. block_ok Da b"
  shows "(\<forall>st st'. D st = Da \<and> loop superfunc st bs = Inr st' \<longrightarrow>
            xc_e st' = xc_e st +
              (\<Sum>b\<leftarrow>bs. \<Sum>p<npoints b. w b ! p * fst (superfunc (rho_spec Da b)) ! p)) \<and>
         (\<forall>st. xc_kernel Da superfunc bs = Inr st \<longrightarrow>
            xc_e st =
              (\<Sum>b\<leftarrow>bs. \<Sum>p<npoints b. w b ! p * fst (superfunc (rho_spec Da b)) ! p))"
proof -
  have de: "map (block_de superfunc Da) bs
              = map (\<lambda>b. \<Sum>p<npoints b. w b ! p * fst (superfunc (rho_spec Da b)) ! p) bs"
    using assms by (intro map_cong refl) (simp add: block_ok_body(2) energy_spec_def)
  have 1: "xc_e st' = xc_e st +
              (\<Sum>b\<leftarrow>bs. \<Sum>p<npoints b. w b ! p * fst (superfunc (rho_spec Da b)) ! p)"
    if d: "D st = Da" and l: "loop superfunc st bs = Inr st'" for st st'
  proof -
    from l have "\<exists>s. loop superfunc st bs = Inr s" by blast
    then have "\<forall>b\<in>set bs. body_ok superfunc (D st) (nrows (V st)) (ncols (V st)) b"
      by (simp only: loop_Inr_iff)
    from loop_ok[OF this] l
    have "xc_e st' = xc_e st + sum_list (map (block_de superfunc Da) bs)" by (auto simp: d)
    then show ?thesis by (simp only: de)
  qed
  have 2: "xc_e st = (\<Sum>b\<leftarrow>bs. \<Sum>p<npoints b. w b ! p * fst (superfunc (rho_spec Da b)) ! p)"
    if k: "xc_kernel Da superfunc bs = Inr st" for st
  proof -
    have "xc_e st = sum_list (map (block_de superfunc Da) bs)"
      by (subst xc_kernel_Inr[OF k]) simp
    then show ?thesis by (simp only: de)
  qed
  from 1 2 show ?thesis by blast
qed

lemma ex_functional_ok: "functional_ok ex_functional"
  by (simp add: functional_ok_def ex_functional_def)

lemma ex_blocks_ok: "block_ok ex_Da ex_block" "block_ok ex_Da ex_block2"
  by (simp_all add: block_ok_def ex_block_def ex_block2_def of_rows_def)

lemma ex_rho_spec: "rho_spec ex_Da ex_block = [2, 6]" "rho_spec ex_Da ex_block2 = [18]"
  using density_assembler_rho_spec[of ex_block ex_Da] density_assembler_rho_spec[of ex_block2 ex_Da]
    ex_blocks_ok
  by (simp_all add: block_ok_def ex_density ex_density2)

theorem xc_energy_running_sum_witness:
  "functional_ok ex_functional \<and> block_ok ex_Da ex_block \<and> block_ok ex_Da ex_block2 \<and>
   (\<exists>st. xc_kernel ex_Da ex_functional [ex_block, ex_block2] = Inr st \<and>
         loop ex_functional ex_state [ex_block, ex_block2] = Inr st \<and>
         xc_e st = (1 * (- 2) + 1/2 * (- 6)) + 2 * (- 18))"
proof -
  from ex_run obtain st where st: "xc_kernel ex_Da ex_functional [ex_block, ex_block2] = Inr st"
    by blast
  then have l: "loop ex_functional ex_state [ex_block, ex_block2] = Inr st"
    by (simp add: xc_kernel_def ex_state_def)
  have ok: "\<forall>b\<in>set [ex_block, ex_block2]. block_ok ex_Da b"
    by (simp add: ex_blocks_ok)
  have d: "D ex_state = ex_Da" by (simp add: ex_state_def)
  from xc_energy_running_sum[OF ex_functional_ok ok] st d
  have "xc_e st = (\<Sum>b\<leftarrow>[ex_block, ex_block2].
                    \<Sum>p<npoints b. w b ! p * fst (ex_functional (rho_spec ex_Da b)) ! p)"
    by blast
  also have "\<dots> = (1 * (- 2) + 1/2 * (- 6)) + 2 * (- 18)"
    by (simp add: ex_rho_spec ex_functional_def)
       (simp add: ex_block_def ex_block2_def lessThan_Suc numeral_2_eq_2)
  finally show ?thesis using st l ex_functional_ok ex_blocks_ok by blast
qed

section \<open>The potential matrix\<close>




section \<open>One block over the full basis\<close>

lemma scatter_spec_identity:
  assumes "i < n" "j < n"
  shows "scatter_spec [0..<n] S i j = S i j"
proof -
  have "scatter_spec [0..<n] S i j = (\<Sum>a<n. \<Sum>c<n. if a = i \<and> c = j then S a c else 0)"
    unfolding scatter_spec_def by (intro sum.cong) simp_all
  also have "\<dots> = (\<Sum>a<n. if a = i then (\<Sum>c<n. if c = j then S a c else 0) else 0)"
    by (intro sum.cong refl) simp
  also have "\<dots> = S i j" using assms by (simp add: sum.delta)
  finally show ?thesis .
qed

lemma rho_spec_identity:
  assumes "lpos b = [0..<n]" "nrows Da = n" "ncols Da = n"
  shows "rho_spec Da b =
           map (\<lambda>p. 2 * (\<Sum>\<mu><nrows Da. \<Sum>\<nu><ncols Da.
                            entry (PHI b) p \<mu> * entry Da \<mu> \<nu> * entry (PHI b) p \<nu>))
             [0..<npoints b]"
  using assms by (simp add: rho_spec_def)

text \<open>
  Claim C5. For a single block whose index list is the whole (non-empty) basis in order, the cell
  returns the matrix of the direct contraction over the full basis (no slicing by an index
  list, no symmetrization, no scatter): same shape, same entries.
\<close>

theorem single_block_matches_reference:
  assumes "functional_ok superfunc"
    and "nrows Da = n" and "ncols Da = n" and "lpos b = [0..<n]"
    and "npoints b \<le> nrows (PHI b)" and "n \<le> ncols (PHI b)" and "length (w b) = npoints b"
    and "0 < n"
  shows "\<exists>st. xc_kernel Da superfunc [b] = Inr st \<and>
           nrows (V st) = nrows (V_reference Da superfunc b) \<and>
           ncols (V st) = ncols (V_reference Da superfunc b) \<and>
           (\<forall>i<n. \<forall>j<n. entry (V st) i j = entry (V_reference Da superfunc b) i j)"
proof -
  let ?st0 = "\<lparr>D = Da, V = zeros_like Da, xc_e = 0\<rparr>"
  from assms have ok: "block_ok Da b" and d: "distinct (lpos b)"
    by (simp_all add: block_ok_def list_all_iff)
  have bo: "\<forall>b'\<in>set [b]. body_ok superfunc (D ?st0) (nrows (V ?st0)) (ncols (V ?st0)) b'"
    using block_ok_body(1)[OF assms(1) ok] by simp
  have ent: "entry (add_entries (zeros_like Da)
               (\<lambda>i j. sum_list (map (\<lambda>b. block_dV superfunc Da b i j) [b]))) i j
             = entry (V_reference Da superfunc b) i j" if "i < n" "j < n" for i j
  proof -
    have "block_dV superfunc Da b i j = Vsym_spec superfunc Da b i j"
      using block_ok_body(3)[OF assms(1) ok d] that
      by (simp add: assms(4) scatter_spec_identity)
    also have "\<dots> = Vtmp_spec superfunc Da b j i"
      by (simp add: Vsym_spec_def Vtmp_spec_def mult_ac)
    also have "\<dots> = entry (V_reference Da superfunc b) i j"
      by (simp add: Vtmp_spec_def V_reference_def rho_spec_identity[OF assms(4,2,3)] Let_def)
    finally show ?thesis by simp
  qed
  show ?thesis
    unfolding xc_kernel_def loop_ok[OF bo]
    using ent by (simp add: V_reference_def Let_def)
qed

lemma ex_V_reference01: "entry (V_reference ex_Da ex_functional ex_block) 0 1 = - 3/2"
  by (simp add: V_reference_def Let_def ex_Da_def)
     (simp add: ex_block_def of_rows_def ex_functional_def lessThan_Suc numeral_2_eq_2 upt_2)

theorem single_block_matches_reference_witness:
  "functional_ok ex_functional \<and> nrows ex_Da = 2 \<and> ncols ex_Da = 2 \<and>
   lpos ex_block = [0..<2] \<and> npoints ex_block \<le> nrows (PHI ex_block) \<and>
   2 \<le> ncols (PHI ex_block) \<and> length (w ex_block) = npoints ex_block \<and> (0::nat) < 2 \<and>
   (\<exists>st. xc_kernel ex_Da ex_functional [ex_block] = Inr st \<and>
         entry (V st) 0 1 = entry (V_reference ex_Da ex_functional ex_block) 0 1 \<and>
         entry (V st) 0 1 = - 3/2)"
proof -
  have h: "nrows ex_Da = 2" "ncols ex_Da = 2" "lpos ex_block = [0..<2]"
    "npoints ex_block \<le> nrows (PHI ex_block)" "2 \<le> ncols (PHI ex_block)"
    "length (w ex_block) = npoints ex_block" "(0::nat) < 2"
    by (simp_all add: ex_block_def of_rows_def upt_2)
  from single_block_matches_reference[OF ex_functional_ok h] obtain st where
    st: "xc_kernel ex_Da ex_functional [ex_block] = Inr st"
    and v: "\<forall>i<2. \<forall>j<2. entry (V st) i j = entry (V_reference ex_Da ex_functional ex_block) i j"
    by blast
  from v have "entry (V st) 0 1 = entry (V_reference ex_Da ex_functional ex_block) 0 1" by simp
  with st h ex_functional_ok ex_V_reference01 show ?thesis by auto
qed

section \<open>Degenerate and inconsistent blocks\<close>

lemma empty_lpos_raises:
  "lpos b = [] \<Longrightarrow> loop_body superfunc st b = Inl IndexError"
  by (simp add: loop_body_def density_assembler_def getitem_outer_def np_array_def and_then_def)

text \<open>
  The element type is the only obstacle: with an empty index array of integers the
  in-place addition succeeds and leaves the array as it is.
\<close>

lemma empty_int_index_harmless:
  assumes "nrows X = 0 \<or> nrows X = 1" and "ncols X = 0 \<or> ncols X = 1"
  shows "iadd_outer A \<lparr>dtype_of = int64, items = []\<rparr> X = Inr A"
  using assms by (simp add: iadd_outer_def getitem_outer_def and_then_def setitem_outer_def)

text \<open>
  Claim C8. A block whose index list is empty is not processed: \<^verbatim>\<open>np.array([])\<close> is an
  array of \<^verbatim>\<open>float64\<close>, the line \<^verbatim>\<open>lD = D[(lpos[:, None], lpos)]\<close> refuses it as an
  index, and the loop body, and with it the cell, ends with \<^verbatim>\<open>IndexError\<close>.
\<close>

theorem empty_block_raises:
  "lpos ex_empty_block = [] \<and>
   loop_body ex_functional ex_state ex_empty_block = Inl IndexError \<and>
   xc_kernel ex_Da ex_functional [ex_empty_block] = Inl IndexError"
  by (simp add: xc_kernel_def empty_lpos_raises and_then_def ex_empty_block_def)













end
